theory Spec2Isabelle
  imports Main "HOL-Library.Word"
begin

unbundle bit_operations_syntax

section \<open>JavaScript values used by app.js\<close>

text \<open>
  A JavaScript string is a sequence of UTF-16 code units; \<open>length\<close> counts code units.
  Step ids, labels and the hexadecimal output are plain ASCII and are kept as HOL strings.
\<close>

type_synonym jsstring = "16 word list"

definition js :: "string \<Rightarrow> jsstring" where
  "js s = map (\<lambda>c. word_of_nat (of_char c)) s"

text \<open>
  \<open>for (const c of s)\<close> runs the string iterator: a high surrogate followed by a low
  surrogate is delivered as one two-unit string, every other code unit alone.
\<close>

definition is_high_surrogate :: "16 word \<Rightarrow> bool" where
  "is_high_surrogate u = (0xD800 \<le> u \<and> u \<le> 0xDBFF)"

definition is_low_surrogate :: "16 word \<Rightarrow> bool" where
  "is_low_surrogate u = (0xDC00 \<le> u \<and> u \<le> 0xDFFF)"

fun string_iterator :: "jsstring \<Rightarrow> jsstring list" where
  "string_iterator [] = []"
| "string_iterator [u] = [[u]]"
| "string_iterator (u # v # rest) =
     (if is_high_surrogate u \<and> is_low_surrogate v
      then [u, v] # string_iterator rest
      else [u] # string_iterator (v # rest))"

text \<open>
  \<open>c.charCodeAt(0)\<close> is the first code unit of \<open>c\<close>. On the empty string JavaScript
  gives NaN; the iterator never delivers an empty string, so that equation is never used.
\<close>

fun charCodeAt0 :: "jsstring \<Rightarrow> int" where
  "charCodeAt0 (u # _) = uint u"
| "charCodeAt0 [] = 0"

text \<open>\<open>c.codePointAt(0)\<close>, the Unicode code point of an element the iterator delivers.\<close>

fun codePointAt0 :: "jsstring \<Rightarrow> int" where
  "codePointAt0 [u] = uint u"
| "codePointAt0 (u # v # _) =
     (if is_high_surrogate u \<and> is_low_surrogate v
      then (uint u - 0xD800) * 0x400 + (uint v - 0xDC00) + 0x10000
      else uint u)"
| "codePointAt0 [] = 0"

text \<open>
  Numbers that hold integers are modelled as \<open>int\<close>. The 32-bit operators convert their
  operands with ToInt32/ToUint32 (reduction modulo \<open>2^32\<close>, here \<open>word_of_int\<close>) and
  give a signed result (\<open>sint\<close>), except \<open>>>>\<close> which gives an unsigned one (\<open>uint\<close>).
\<close>

definition js_ushr :: "int \<Rightarrow> nat \<Rightarrow> int" where
  "js_ushr x n = uint (drop_bit n (word_of_int x :: 32 word))"

definition js_shl :: "int \<Rightarrow> nat \<Rightarrow> int" where
  "js_shl x n = sint (push_bit n (word_of_int x :: 32 word))"

definition js_xor :: "int \<Rightarrow> int \<Rightarrow> int" where
  "js_xor x y = sint ((word_of_int x :: 32 word) XOR word_of_int y)"

definition js_or :: "int \<Rightarrow> int \<Rightarrow> int" where
  "js_or x y = sint ((word_of_int x :: 32 word) OR word_of_int y)"

definition Math_imul :: "int \<Rightarrow> int \<Rightarrow> int" where
  "Math_imul x y = sint ((word_of_int x :: 32 word) * word_of_int y)"

text \<open>\<open>%\<close> on Numbers and on BigInts truncates: the result has the sign of the dividend.\<close>

definition js_rem :: "int \<Rightarrow> int \<Rightarrow> int" where
  "js_rem x y = sgn x * (\<bar>x\<bar> mod \<bar>y\<bar>)"

text \<open>
  The product \<open>password.length * 2166136261\<close> is a double multiplication: it is exact
  below \<open>2^53\<close> and rounded to 53 significant bits (ties to even) from there on, which
  happens for passwords of 4158187 code units and more. Every other Number addition and
  multiplication of the program stays below \<open>2^53\<close> for any string an engine can hold and
  is modelled exactly.
\<close>

function bit_length :: "nat \<Rightarrow> nat" where
  "bit_length n = (if n = 0 then 0 else Suc (bit_length (n div 2)))"
  by pat_completeness auto
termination
  by (relation "measure id") auto

declare bit_length.simps [simp del]

definition double_round :: "int \<Rightarrow> int" where
  "double_round n =
     (if n < 2 ^ 53 then n
      else let e = bit_length (nat n) - 53;
               q = n div 2 ^ e;
               r = n mod 2 ^ e;
               half = 2 ^ (e - 1)
           in (if half < r \<or> (r = half \<and> odd q) then q + 1 else q) * 2 ^ e)"

text \<open>\<open>n.toString(16)\<close> for an integer Number, and \<open>s.padStart(8, '0')\<close>.\<close>

definition hex_digit :: "nat \<Rightarrow> char" where
  "hex_digit d = ''0123456789abcdef'' ! d"

function to_hex :: "nat \<Rightarrow> string" where
  "to_hex n = (if n < 16 then [hex_digit n] else to_hex (n div 16) @ [hex_digit (n mod 16)])"
  by pat_completeness auto
termination
  by (relation "measure id") auto

declare to_hex.simps [simp del]

definition toString16 :: "int \<Rightarrow> string" where
  "toString16 x = (if x < 0 then CHR ''-'' # to_hex (nat (- x)) else to_hex (nat x))"

definition padStart :: "nat \<Rightarrow> char \<Rightarrow> string \<Rightarrow> string" where
  "padStart n c s = replicate (n - length s) c @ s"

section \<open>Hash state and step results\<close>

text \<open>
  The state object of \<open>runHash\<close> and the object a step returns. The \<open>desc\<close> text of a
  result is a display string and is left out; \<open>display\<close> is present for \<open>hex_encode\<close> only.
\<close>

record HashState =
  str :: jsstring
  val :: int
  salt :: jsstring
  hexStr :: string

record StepResult =
  rval :: int
  display :: "string option"

definition result :: "HashState \<Rightarrow> HashState \<times> StepResult" where
  "result st = (st, \<lparr>rval = val st, display = None\<rparr>)"

section \<open>The step catalog\<close>

definition charcode_sum_run :: "HashState \<Rightarrow> HashState \<times> StepResult" where
  "charcode_sum_run st =
     (let v = foldl (\<lambda>v c. v + charCodeAt0 c) 0 (string_iterator (str st))
      in result (st\<lparr>val := js_ushr (val st + v) 0\<rparr>))"

definition polynomial_roll_run :: "HashState \<Rightarrow> HashState \<times> StepResult" where
  "polynomial_roll_run st =
     (let M = 1000000007; P = 31;
          (h, p) = foldl (\<lambda>(h, p) c. (js_rem (h + charCodeAt0 c * p) M, js_rem (p * P) M))
                     (0, 1) (string_iterator (str st))
      in result (st\<lparr>val := js_ushr h 0\<rparr>))"

definition xor_fold_run :: "HashState \<Rightarrow> HashState \<times> StepResult" where
  "xor_fold_run st =
     (let h = foldl (\<lambda>h c. js_xor h (charCodeAt0 c)) (val st) (string_iterator (str st))
      in result (st\<lparr>val := js_ushr h 0\<rparr>))"

function modexp_loop :: "int \<Rightarrow> int \<Rightarrow> int \<Rightarrow> int \<Rightarrow> int" where
  "modexp_loop M res base exp =
     (if 0 < exp
      then modexp_loop M (if js_rem exp 2 = 1 then js_rem (res * base) M else res)
             (js_rem (base * base) M) (exp div 2)
      else res)"
  by pat_completeness auto
termination
  by (relation "measure (\<lambda>(M, res, base, exp). nat exp)") auto

declare modexp_loop.simps [simp del]

definition modular_exp_run :: "HashState \<Rightarrow> HashState \<times> StepResult" where
  "modular_exp_run st =
     (let M = 2147483647; e = 65537;
          base = js_rem (if val st = 0 then 1 else val st) M;
          base = (if base = 0 then 1 else base);
          res = modexp_loop M 1 base e
      in result (st\<lparr>val := js_ushr res 0\<rparr>))"

definition fibonacci_mix_run :: "HashState \<Rightarrow> HashState \<times> StepResult" where
  "fibonacci_mix_run st =
     (let KNUTH = 2654435769; M = 2 ^ 32
      in result (st\<lparr>val := js_ushr (js_rem (val st * KNUTH) M) 0\<rparr>))"

definition prime_multiply_run :: "HashState \<Rightarrow> HashState \<times> StepResult" where
  "prime_multiply_run st =
     (let PRIME = 1000000007; M = 2 ^ 32
      in result (st\<lparr>val := js_ushr (js_rem (val st * PRIME) M) 0\<rparr>))"

definition bit_rotate_run :: "HashState \<Rightarrow> HashState \<times> StepResult" where
  "bit_rotate_run st =
     (let h = js_ushr (val st) 0
      in result (st\<lparr>val := js_ushr (js_or (js_shl h 13) (js_ushr h 19)) 0\<rparr>))"

definition ascii_square_run :: "HashState \<Rightarrow> HashState \<times> StepResult" where
  "ascii_square_run st =
     (let M = 2 ^ 32;
          v = foldl (\<lambda>v c. let code = charCodeAt0 c in js_rem (v + code * code) M)
                0 (string_iterator (str st))
      in result (st\<lparr>val := js_ushr (val st + v) 0\<rparr>))"

definition avalanche_run :: "HashState \<Rightarrow> HashState \<times> StepResult" where
  "avalanche_run st =
     (let h = js_ushr (val st) 0;
          h = js_xor h (js_ushr h 16);
          h = js_ushr (Math_imul h 0x85ebca6b) 0;
          h = js_xor h (js_ushr h 13);
          h = js_ushr (Math_imul h 0xc2b2ae35) 0;
          h = js_xor h (js_ushr h 16)
      in result (st\<lparr>val := js_ushr h 0\<rparr>))"

definition salt_inject_run :: "HashState \<Rightarrow> HashState \<times> StepResult" where
  "salt_inject_run st =
     (let salt = (if salt st \<noteq> [] then salt st else js ''x'');
          (sv, p) = foldl (\<lambda>(sv, p) c. (js_ushr (sv + charCodeAt0 c * p) 0,
                                         js_ushr (Math_imul p 31) 0))
                      (0, 1) (string_iterator salt)
      in result (st\<lparr>val := js_ushr (js_xor (val st) sv) 0\<rparr>))"

definition rounds_body :: "int \<Rightarrow> int" where
  "rounds_body h0 =
     (let h = js_xor h0 (js_ushr h0 16);
          h = js_ushr (Math_imul h 0x85ebca6b) 0;
          h = js_xor h (js_ushr h 13);
          h = js_ushr (Math_imul h 0xc2b2ae35) 0
      in js_xor h (js_ushr h 16))"

definition rounds_run :: "HashState \<Rightarrow> HashState \<times> StepResult" where
  "rounds_run st =
     (let h = (rounds_body ^^ 8) (val st)
      in result (st\<lparr>val := js_ushr h 0\<rparr>))"

definition hex_encode_run :: "HashState \<Rightarrow> HashState \<times> StepResult" where
  "hex_encode_run st =
     (let hex = padStart 8 CHR ''0'' (toString16 (val st));
          st' = st\<lparr>hexStr := (if hexStr st \<noteq> [] then hexStr st else []) @ hex\<rparr>
      in (st', \<lparr>rval = val st', display = Some (''0x'' @ hex)\<rparr>))"

definition modulo_trim_run :: "HashState \<Rightarrow> HashState \<times> StepResult" where
  "modulo_trim_run st = result (st\<lparr>val := js_rem (val st) 65536\<rparr>)"

text \<open>
  \<open>STEPS[key]\<close>: the thirteen own properties of the catalog object, in the order of the
  source, and the lookup in them. For any other key
  the lookup gives \<open>undefined\<close> or an inherited member of \<open>Object.prototype\<close>, none of
  which has a callable \<open>run\<close>; both cases are \<open>None\<close> here.
\<close>

definition STEPS_entries :: "(string \<times> (HashState \<Rightarrow> HashState \<times> StepResult)) list" where
  "STEPS_entries =
     [(''charcode_sum'', charcode_sum_run),
      (''polynomial_roll'', polynomial_roll_run),
      (''xor_fold'', xor_fold_run),
      (''modular_exp'', modular_exp_run),
      (''fibonacci_mix'', fibonacci_mix_run),
      (''prime_multiply'', prime_multiply_run),
      (''bit_rotate'', bit_rotate_run),
      (''ascii_square'', ascii_square_run),
      (''avalanche'', avalanche_run),
      (''salt_inject'', salt_inject_run),
      (''rounds'', rounds_run),
      (''hex_encode'', hex_encode_run),
      (''modulo_trim'', modulo_trim_run)]"

definition STEPS :: "string \<Rightarrow> (HashState \<Rightarrow> HashState \<times> StepResult) option" where
  "STEPS = map_of STEPS_entries"

section \<open>The pipeline evaluator\<close>

text \<open>
  A thrown error is an object told apart by its \<open>name\<close>. app.js defines no error
  class and has no \<open>throw\<close>; what it can raise is the built-in TypeError of the
  runtime: calling \<open>step.run\<close> when \<open>STEPS[key]\<close> has no callable \<open>run\<close>, and
  reading a property of \<open>undefined\<close> in \<open>flipChar\<close>. Nothing in app.js catches it,
  so it leaves the function that raised it and every caller.
\<close>

datatype error = JsError string

abbreviation TypeError :: error where
  "TypeError \<equiv> JsError ''TypeError''"

record RunResult =
  finalHash :: string
  trace :: "(string \<times> StepResult) list"
  stepOutputs :: "StepResult list"
  stateVal :: int

text \<open>
  \<open>steps.map((key, i) => ...)\<close>: the steps run in order on the one state object; the
  first failing lookup ends the run.
\<close>

fun run_steps :: "string list \<Rightarrow> HashState \<Rightarrow> error + (HashState \<times> StepResult list)" where
  "run_steps [] st = Inr (st, [])"
| "run_steps (key # keys) st =
     (case STEPS key of
        None \<Rightarrow> Inl TypeError
      | Some run \<Rightarrow>
          (let (st', r) = run st
           in case run_steps keys st' of
                Inl e \<Rightarrow> Inl e
              | Inr (st'', rs) \<Rightarrow> Inr (st'', r # rs)))"

text \<open>
  The second word of the digest that \<open>runHash\<close> makes up when no step wrote \<open>hexStr\<close>.
\<close>

definition second_word :: "int \<Rightarrow> int" where
  "second_word h1 =
     (let h2 = js_ushr (Math_imul (js_xor h1 (js_ushr h1 16)) 0x85ebca6b) 0;
          h2 = js_ushr (Math_imul (js_xor h2 (js_ushr h2 13)) 0xc2b2ae35) 0
      in js_xor h2 (js_ushr h2 16))"

definition seed :: "jsstring \<Rightarrow> int" where
  "seed password = js_ushr (double_round (int (length password) * 2166136261)) 0"

text \<open>
  A trace entry pairs the step with its result; the step's key stands for its label.
\<close>

definition runHash :: "jsstring \<Rightarrow> jsstring \<Rightarrow> string list \<Rightarrow> error + RunResult" where
  "runHash password salt_in steps =
     (let state = \<lparr>str = password @ salt_in, val = 0, salt = salt_in, hexStr = []\<rparr>;
          state = state\<lparr>val := seed password\<rparr>
      in case run_steps steps state of
           Inl e \<Rightarrow> Inl e
         | Inr (state, outs) \<Rightarrow>
             (let final =
                    (if hexStr state \<noteq> [] then hexStr state
                     else let h1 = val state; h2 = second_word h1
                          in padStart 8 CHR ''0'' (toString16 h1) @
                             padStart 8 CHR ''0'' (toString16 h2))
              in Inr \<lparr>finalHash = final, trace = zip steps outs,
                      stepOutputs = outs, stateVal = val state\<rparr>))"

section \<open>The avalanche report and the run button\<close>

text \<open>
  \<open>flipChar\<close> spreads the string into its iterator elements, replaces element \<open>idx\<close> by
  \<open>String.fromCharCode\<close> of its first code unit plus one (ToUint16 wraps) and joins.
  When \<open>arr[idx]\<close> is \<open>undefined\<close> the call of \<open>charCodeAt\<close> throws.
\<close>

definition flipChar :: "jsstring \<Rightarrow> int \<Rightarrow> error + jsstring" where
  "flipChar s idx =
     (let arr = string_iterator s
      in if 0 \<le> idx \<and> idx < int (length arr)
         then Inr (concat (arr[nat idx := [word_of_int (charCodeAt0 (arr ! nat idx) + 1)]]))
         else Inl TypeError)"

definition countDifferentChars :: "string \<Rightarrow> string \<Rightarrow> nat" where
  "countDifferentChars a b =
     (let len = min (length a) (length b);
          diff = length (filter (\<lambda>i. a ! i \<noteq> b ! i) [0..<len])
      in diff + nat \<bar>int (length a) - int (length b)\<bar>)"

text \<open>
  One row of the report. The percentage shown, \<open>Math.round(diff / base.length * 100)\<close>,
  is a floating-point display value derived from \<open>av_diff\<close>; it is not modelled.
\<close>

record av_row =
  av_label :: string
  av_pw :: jsstring
  av_hash :: string
  av_diff :: nat

fun av_rows :: "string \<Rightarrow> jsstring \<Rightarrow> string list \<Rightarrow> (string \<times> jsstring) list \<Rightarrow> error + av_row list" where
  "av_rows base salt_in steps [] = Inr []"
| "av_rows base salt_in steps ((l, p) # tests) =
     (case runHash p salt_in steps of
        Inl e \<Rightarrow> Inl e
      | Inr r \<Rightarrow>
          (let h = finalHash r;
               row = \<lparr>av_label = l, av_pw = p, av_hash = h, av_diff = countDifferentChars base h\<rparr>
           in case av_rows base salt_in steps tests of
                Inl e \<Rightarrow> Inl e
              | Inr rows \<Rightarrow> Inr (row # rows)))"

definition runAvalanche :: "jsstring \<Rightarrow> jsstring \<Rightarrow> string list \<Rightarrow> error + av_row list" where
  "runAvalanche password salt_in steps =
     (case runHash password salt_in steps of
        Inl e \<Rightarrow> Inl e
      | Inr r0 \<Rightarrow>
     (case flipChar password 0 of
        Inl e \<Rightarrow> Inl e
      | Inr p1 \<Rightarrow>
     (case flipChar password (int (length password) div 2) of
        Inl e \<Rightarrow> Inl e
      | Inr p2 \<Rightarrow>
     (case flipChar password (int (length password) - 1) of
        Inl e \<Rightarrow> Inl e
      | Inr p3 \<Rightarrow>
          av_rows (finalHash r0) salt_in steps
            [(''Original'', password), (''Flip 1st char'', p1),
             (''Flip mid char'', p2), (''Flip last char'', p3)]))))"

text \<open>
  The click handler of the run button, the only caller of \<open>runHash\<close> and
  \<open>runAvalanche\<close>: it reads the module-level pipeline and the two input fields.
\<close>

datatype click_outcome = Alert string | Shown RunResult "av_row list" | Uncaught error

definition btn_run_click :: "string list \<Rightarrow> jsstring \<Rightarrow> jsstring \<Rightarrow> click_outcome" where
  "btn_run_click pipeline password_input salt_input =
     (if length pipeline = 0 then Alert ''Add at least one step to your pipeline first!''
      else let password = (if password_input \<noteq> [] then password_input else js ''password'');
               salt_v = (if salt_input \<noteq> [] then salt_input else [])
           in case runHash password salt_v pipeline of
                Inl e \<Rightarrow> Uncaught e
              | Inr r \<Rightarrow>
                  (case runAvalanche password salt_v pipeline of
                     Inl e \<Rightarrow> Uncaught e
                   | Inr rows \<Rightarrow> Shown r rows))"

section \<open>Auxiliary notions for the statements\<close>

text \<open>An unsigned 32-bit integer, and the state a step leaves behind.\<close>

definition u32 :: "int \<Rightarrow> bool" where
  "u32 x = (0 \<le> x \<and> x < 4294967296)"

definition step_state :: "(HashState \<Rightarrow> HashState \<times> StepResult) \<Rightarrow> HashState \<Rightarrow> HashState" where
  "step_state run st = fst (run st)"

text \<open>The ids of the catalog: the keys of \<open>STEPS\<close>.\<close>

definition catalog_ids :: "string list" where
  "catalog_ids = map fst STEPS_entries"

text \<open>Two states that agree on everything a step reads besides \<open>hexStr\<close>.\<close>

definition same_input :: "HashState \<Rightarrow> HashState \<Rightarrow> bool" where
  "same_input st st' = (str st = str st' \<and> val st = val st' \<and> salt st = salt st')"

definition hex_chars :: "char set" where
  "hex_chars = set ''0123456789abcdef''"

text \<open>
  The modular exponentiation as the design states it: the base is the accumulator, or 1
  when the accumulator is 0, raised to 65537 modulo \<open>2^31 - 1\<close>.
\<close>

definition modular_exp_spec :: "int \<Rightarrow> int" where
  "modular_exp_spec acc = (if acc = 0 then 1 else acc) ^ 65537 mod (2 ^ 31 - 1)"

text \<open>The code points of a string, in the order of the iteration.\<close>

definition code_points :: "jsstring \<Rightarrow> int list" where
  "code_points s = map codePointAt0 (string_iterator s)"

text \<open>
  A string without surrogate pairs: the iteration delivers every code unit alone, so
  each character is one code unit and its code point is that unit.
\<close>

definition no_surrogate_pair :: "jsstring \<Rightarrow> bool" where
  "no_surrogate_pair s = list_all (\<lambda>c. length c = 1) (string_iterator s)"

text \<open>
  The polynomial hash of a string as the design states it: the sum of
  \<open>c\<^sub>i * 31^i\<close> over the code points \<open>c\<^sub>i\<close> of the string, truncated to 32 bits.
\<close>

definition poly_hash32 :: "jsstring \<Rightarrow> int" where
  "poly_hash32 s =
     (let cs = code_points s
      in sum_list (map (\<lambda>i. cs ! i * 31 ^ i) [0..<length cs]) mod 2 ^ 32)"

text \<open>The loop body of \<open>salt_inject\<close>, and the same sum in Horner form.\<close>

definition salt_body :: "int \<times> int \<Rightarrow> jsstring \<Rightarrow> int \<times> int" where
  "salt_body = (\<lambda>(sv, p) c. (js_ushr (sv + charCodeAt0 c * p) 0, js_ushr (Math_imul p 31) 0))"

fun horner31 :: "int list \<Rightarrow> int" where
  "horner31 [] = 0"
| "horner31 (c # cs) = c + 31 * horner31 cs"

text \<open>
  The Murmur3-style finalizer on a 32-bit word, as the design states it, and the
  two-word digest the design asks for when no step encoded to hex: the accumulator and
  its finalized word, each as 8 zero-padded hexadecimal digits.
\<close>

definition avalanche_finalize :: "32 word \<Rightarrow> 32 word" where
  "avalanche_finalize h0 =
     (let h = h0 XOR drop_bit 16 h0;
          h = h * 0x85ebca6b;
          h = h XOR drop_bit 13 h;
          h = h * 0xc2b2ae35
      in h XOR drop_bit 16 h)"

definition two_word_digest :: "int \<Rightarrow> string" where
  "two_word_digest acc =
     padStart 8 CHR ''0'' (to_hex (nat acc)) @
     padStart 8 CHR ''0'' (to_hex (unat (avalanche_finalize (word_of_int acc))))"

section \<open>The 32-bit reading of the operators\<close>

text \<open>
  Reduced modulo \<open>2^32\<close>, every operator is the corresponding operation on 32-bit words.
\<close>

lemma w32_js_ushr: "(word_of_int (js_ushr x n) :: 32 word) = drop_bit n (word_of_int x)"
  by (simp add: js_ushr_def)

lemma w32_js_shl: "(word_of_int (js_shl x n) :: 32 word) = push_bit n (word_of_int x)"
  by (simp add: js_shl_def)

lemma w32_js_xor: "(word_of_int (js_xor x y) :: 32 word) = word_of_int x XOR word_of_int y"
  by (simp add: js_xor_def)

lemma w32_js_or: "(word_of_int (js_or x y) :: 32 word) = word_of_int x OR word_of_int y"
  by (simp add: js_or_def)

lemma w32_Math_imul: "(word_of_int (Math_imul x y) :: 32 word) = word_of_int x * word_of_int y"
  by (simp add: Math_imul_def)

lemmas w32_ops = w32_js_ushr w32_js_shl w32_js_xor w32_js_or w32_Math_imul

lemma js_ushr_0: "js_ushr x 0 = uint (word_of_int x :: 32 word)"
  by (simp add: js_ushr_def)

lemma js_ushr_nonneg: "0 \<le> js_ushr x n"
  by (simp add: js_ushr_def)

lemma js_ushr_less: "js_ushr x n < 4294967296"
  using uint_lt2p [of "drop_bit n (word_of_int x :: 32 word)"] by (simp add: js_ushr_def)

lemma js_ushr_0_id: "0 \<le> x \<Longrightarrow> x < 4294967296 \<Longrightarrow> js_ushr x 0 = x"
  by (simp add: js_ushr_def uint_word_of_int)

lemma u32_js_ushr [simp]: "u32 (js_ushr x n)"
  by (simp add: u32_def js_ushr_nonneg js_ushr_less)

lemma js_xor_u32:
  assumes "u32 a" "u32 b"
  shows "js_ushr (js_xor a b) 0 = a XOR b"
proof -
  have "js_ushr (js_xor a b) 0 = uint ((word_of_int a :: 32 word) XOR word_of_int b)"
    by (simp add: js_ushr_0 w32_ops)
  also have "\<dots> = uint (word_of_int a :: 32 word) XOR uint (word_of_int b :: 32 word)"
    by (rule uint_xor)
  also have "\<dots> = a XOR b"
    using assms by (simp add: u32_def uint_word_of_int)
  finally show ?thesis .
qed

lemma js_rem_nonneg: "0 \<le> x \<Longrightarrow> 0 < y \<Longrightarrow> js_rem x y = x mod y"
  by (cases "x = 0") (simp_all add: js_rem_def)

lemma rotl13: "push_bit 13 w OR drop_bit 19 w = word_rotl 13 (w :: 32 word)"
proof (rule bit_word_eqI)
  fix n
  assume "n < LENGTH(32)"
  then have n: "n < 32" by simp
  then have m: "(n + 19) mod 32 = (if 13 \<le> n then n - 13 else n + 19)"
    by (simp add: mod_if)
  show "bit (push_bit 13 w OR drop_bit 19 w) n = bit (word_rotl 13 w) n"
    using n m by (auto simp: bit_simps add.commute dest: bit_imp_le_length)
qed

section \<open>Evaluating on literals\<close>

lemma replicate_num: "replicate (numeral k) x = x # replicate (pred_numeral k) x"
  by (simp add: numeral_eq_Suc)

lemma replicate_8: "replicate (8 - n) c = drop n [c, c, c, c, c, c, c, c]"
proof -
  have "replicate (8 - n) c = drop n (replicate 8 c)" by simp
  also have "replicate 8 c = [c, c, c, c, c, c, c, c]" by (simp add: numeral_eq_Suc)
  finally show ?thesis .
qed

lemma funpow_4: "(f ^^ 4) x = f (f (f (f x)))"
  by (simp add: numeral_eq_Suc)

lemma to_hex_0_15: "n < 16 \<Longrightarrow> to_hex n = [hex_digit n]"
  by (simp add: to_hex.simps)

section \<open>The catalog and the loop over the steps\<close>

lemma val_result [simp]: "val (fst (result st)) = val st"
  by (simp add: result_def)

lemma STEPS_cases:
  assumes "STEPS key = Some run"
  shows "run = charcode_sum_run \<or> run = polynomial_roll_run \<or> run = xor_fold_run \<or>
         run = modular_exp_run \<or> run = fibonacci_mix_run \<or> run = prime_multiply_run \<or>
         run = bit_rotate_run \<or> run = ascii_square_run \<or> run = avalanche_run \<or>
         run = salt_inject_run \<or> run = rounds_run \<or> run = hex_encode_run \<or>
         run = modulo_trim_run"
  using assms by (simp add: STEPS_def STEPS_entries_def split: if_splits)

lemma STEPS_None_iff: "STEPS key = None \<longleftrightarrow> key \<notin> set catalog_ids"
  by (simp add: STEPS_def catalog_ids_def map_of_eq_None_iff)

lemma STEPS_bit_rotate: "STEPS ''bit_rotate'' = Some bit_rotate_run"
  by (simp add: STEPS_def STEPS_entries_def)

lemma STEPS_hex_encode: "STEPS ''hex_encode'' = Some hex_encode_run"
  by (simp add: STEPS_def STEPS_entries_def)

lemma run_steps_Cons:
  assumes "STEPS key = Some run"
  shows "run_steps (key # keys) st =
           (case run_steps keys (step_state run st) of
              Inl e \<Rightarrow> Inl e
            | Inr (st'', rs) \<Rightarrow> Inr (st'', snd (run st) # rs))"
  using assms by (simp add: step_state_def case_prod_beta)

lemma run_steps_replicate:
  assumes "STEPS key = Some run"
  shows "\<exists>outs. run_steps (replicate n key) st = Inr ((step_state run ^^ n) st, outs)"
proof (induction n arbitrary: st)
  case 0
  show ?case by simp
next
  case (Suc n)
  obtain outs where "run_steps (replicate n key) (step_state run st) =
      Inr ((step_state run ^^ n) (step_state run st), outs)"
    using Suc.IH by blast
  moreover have "run_steps (replicate (Suc n) key) st =
      (case run_steps (replicate n key) (step_state run st) of
         Inl e \<Rightarrow> Inl e
       | Inr (st'', rs) \<Rightarrow> Inr (st'', snd (run st) # rs))"
    by (simp only: replicate_Suc run_steps_Cons [OF assms])
  ultimately show ?case
    by (simp add: funpow_swap1 del: run_steps.simps)
qed

lemma run_steps_total:
  assumes "set steps \<subseteq> set catalog_ids"
  shows "\<exists>st' outs. run_steps steps st = Inr (st', outs)"
  using assms
proof (induction steps arbitrary: st)
  case Nil
  show ?case by simp
next
  case (Cons k ks)
  from Cons.prems have "STEPS k \<noteq> None" by (simp add: STEPS_None_iff)
  then obtain run where run: "STEPS k = Some run" by auto
  from Cons.prems have "set ks \<subseteq> set catalog_ids" by simp
  then obtain st' outs where "run_steps ks (step_state run st) = Inr (st', outs)"
    using Cons.IH by blast
  then show ?case by (simp add: run_steps_Cons [OF run] del: run_steps.simps)
qed

lemma run_steps_unknown:
  assumes "key \<in> set steps" "STEPS key = None"
  shows "run_steps steps st = Inl TypeError"
  using assms(1)
proof (induction steps arbitrary: st)
  case Nil
  then show ?case by simp
next
  case (Cons k ks)
  show ?case
  proof (cases "STEPS k")
    case None
    then show ?thesis by simp
  next
    case (Some run)
    with assms(2) have "k \<noteq> key" by auto
    with Cons.prems have "key \<in> set ks" by simp
    then have "run_steps ks (fst (run st)) = Inl TypeError" by (rule Cons.IH)
    with Some show ?thesis by (simp add: case_prod_beta)
  qed
qed

lemma runHash_total:
  assumes "set steps \<subseteq> set catalog_ids"
  shows "\<exists>r. runHash password salt_in steps = Inr r"
proof -
  obtain st' outs where
    "run_steps steps \<lparr>str = password @ salt_in, val = seed password, salt = salt_in, hexStr = []\<rparr> =
       Inr (st', outs)"
    using run_steps_total [OF assms] by blast
  then show ?thesis by (simp add: runHash_def Let_def)
qed

lemma run_steps_error: "run_steps steps st = Inl e \<Longrightarrow> e = TypeError"
proof (induction steps arbitrary: st)
  case Nil
  then show ?case by simp
next
  case (Cons k ks)
  show ?case
  proof (cases "STEPS k")
    case None
    with Cons.prems show ?thesis by simp
  next
    case (Some run)
    with Cons.prems have "run_steps ks (fst (run st)) = Inl e"
      by (simp add: case_prod_beta split: sum.splits)
    then show ?thesis by (rule Cons.IH)
  qed
qed

lemma runHash_error: "runHash password salt_in steps = Inl e \<Longrightarrow> e = TypeError"
  by (auto simp: runHash_def Let_def split: sum.splits dest: run_steps_error)

lemma runHash_unknown:
  assumes "key \<in> set steps" "STEPS key = None"
  shows "runHash password salt_in steps = Inl TypeError"
  by (simp add: runHash_def run_steps_unknown [OF assms])

lemma runHash_stateVal:
  "map_sum id stateVal (runHash password salt_in steps) =
   map_sum id (val \<circ> fst)
     (run_steps steps \<lparr>str = password @ salt_in, val = seed password, salt = salt_in, hexStr = []\<rparr>)"
  by (simp add: runHash_def Let_def split: sum.splits prod.splits)

section \<open>The accumulator stays an unsigned 32-bit integer\<close>

lemma charcode_sum_u32: "u32 (val (fst (charcode_sum_run st)))"
  by (simp add: charcode_sum_run_def Let_def)

lemma polynomial_roll_u32: "u32 (val (fst (polynomial_roll_run st)))"
  by (simp add: polynomial_roll_run_def Let_def split: prod.splits)

lemma xor_fold_u32: "u32 (val (fst (xor_fold_run st)))"
  by (simp add: xor_fold_run_def Let_def)

lemma modular_exp_u32: "u32 (val (fst (modular_exp_run st)))"
  by (simp add: modular_exp_run_def Let_def)

lemma fibonacci_mix_u32: "u32 (val (fst (fibonacci_mix_run st)))"
  by (simp add: fibonacci_mix_run_def Let_def)

lemma prime_multiply_u32: "u32 (val (fst (prime_multiply_run st)))"
  by (simp add: prime_multiply_run_def Let_def)

lemma bit_rotate_u32: "u32 (val (fst (bit_rotate_run st)))"
  by (simp add: bit_rotate_run_def Let_def)

lemma ascii_square_u32: "u32 (val (fst (ascii_square_run st)))"
  by (simp add: ascii_square_run_def Let_def)

lemma avalanche_u32: "u32 (val (fst (avalanche_run st)))"
  by (simp add: avalanche_run_def Let_def)

lemma salt_inject_u32: "u32 (val (fst (salt_inject_run st)))"
  by (simp add: salt_inject_run_def Let_def split: prod.splits)

lemma rounds_u32: "u32 (val (fst (rounds_run st)))"
  by (simp add: rounds_run_def Let_def)

lemma hex_encode_val: "val (fst (hex_encode_run st)) = val st"
  by (simp add: hex_encode_run_def Let_def)

lemma modulo_trim_u32: "u32 (val st) \<Longrightarrow> u32 (val (fst (modulo_trim_run st)))"
proof -
  assume a: "u32 (val st)"
  then have "js_rem (val st) 65536 = val st mod 65536"
    by (simp add: js_rem_nonneg u32_def)
  moreover have "0 \<le> val st mod 65536" "val st mod 65536 < 65536" by simp_all
  ultimately show ?thesis by (simp add: modulo_trim_run_def u32_def)
qed

lemma step_u32:
  assumes "STEPS key = Some run" "u32 (val st)"
  shows "u32 (val (fst (run st)))"
  using STEPS_cases [OF assms(1)] assms(2)
  by (auto simp: charcode_sum_u32 polynomial_roll_u32 xor_fold_u32 modular_exp_u32
      fibonacci_mix_u32 prime_multiply_u32 bit_rotate_u32 ascii_square_u32 avalanche_u32
      salt_inject_u32 rounds_u32 hex_encode_val modulo_trim_u32)

lemma seed_u32: "u32 (seed password)"
  by (simp add: seed_def)

text \<open>
  Up to 4158186 code units the product is below \<open>2^53\<close>, and the seed is
  \<open>password.length * 2166136261\<close> modulo \<open>2^32\<close>.
\<close>

lemma seed_exact:
  assumes "length password \<le> 4158186"
  shows "seed password = int (length password) * 2166136261 mod 2 ^ 32"
proof -
  have "int (length password) \<le> 4158186" using assms by simp
  then have "int (length password) * 2166136261 \<le> 4158186 * 2166136261"
    by (rule mult_right_mono) simp
  then have "int (length password) * 2166136261 < 2 ^ 53" by simp
  then have "double_round (int (length password) * 2166136261) =
      int (length password) * 2166136261"
    by (simp add: double_round_def)
  then have "seed password =
      uint (word_of_int (int (length password) * 2166136261) :: 32 word)"
    by (simp only: seed_def js_ushr_0)
  also have "\<dots> = int (length password) * 2166136261 mod 2 ^ 32"
    by (simp only: uint_word_of_int) simp
  finally show ?thesis .
qed

text \<open>
  C6. The seed is an unsigned 32-bit integer, and every step of the catalog, run on a state
  whose accumulator is an integer in \<open>[0, 2^32)\<close>, leaves the accumulator in
  \<open>[0, 2^32)\<close>.
\<close>

theorem accumulator_invariant:
  "0 \<le> seed password \<and> seed password < 2 ^ 32 \<and>
   (\<forall>key run st. STEPS key = Some run \<longrightarrow> 0 \<le> val st \<and> val st < 2 ^ 32 \<longrightarrow>
      0 \<le> val (fst (run st)) \<and> val (fst (run st)) < 2 ^ 32)"
  using seed_u32 [of password] step_u32 by (simp add: u32_def)

theorem accumulator_invariant_witness:
  "STEPS ''modulo_trim'' = Some modulo_trim_run \<and>
   0 \<le> val \<lparr>str = [], val = 70000, salt = [], hexStr = []\<rparr> \<and>
   val \<lparr>str = [], val = 70000, salt = [], hexStr = []\<rparr> < 2 ^ 32 \<and>
   0 \<le> val (fst (modulo_trim_run \<lparr>str = [], val = 70000, salt = [], hexStr = []\<rparr>)) \<and>
   val (fst (modulo_trim_run \<lparr>str = [], val = 70000, salt = [], hexStr = []\<rparr>)) < 2 ^ 32"
proof -
  have k: "STEPS ''modulo_trim'' = Some modulo_trim_run"
    by (simp add: STEPS_def STEPS_entries_def)
  have v: "0 \<le> val \<lparr>str = [], val = 70000, salt = [], hexStr = []\<rparr> \<and>
           val \<lparr>str = [], val = 70000, salt = [], hexStr = []\<rparr> < 2 ^ 32"
    by simp
  from accumulator_invariant [of "[]", THEN conjunct2, THEN conjunct2, rule_format, OF k v] k v
  show ?thesis by blast
qed

section \<open>Bit rotation\<close>

lemma bit_rotate_val:
  "val (fst (bit_rotate_run st)) = uint (word_rotl 13 (word_of_int (val st) :: 32 word))"
  by (simp add: bit_rotate_run_def Let_def js_ushr_0 w32_ops rotl13)

lemma rotl13_rotr19: "word_rotl 13 (w :: 32 word) = word_rotr 19 w"
  by (rule bit_word_eqI) (simp add: bit_simps)

lemma rotr_608: "word_rotr 608 (w :: 32 word) = w"
proof (rule bit_word_eqI)
  fix n
  assume "n < LENGTH(32)"
  then have n: "n < 32" by simp
  have "(n + 608) mod 32 = (n + 19 * 32) mod 32" by simp
  also have "\<dots> = n mod 32" by (rule mod_mult_self1)
  also have "\<dots> = n" using n by simp
  finally have "(n + 608) mod 32 = n" .
  with n show "bit (word_rotr 608 w) n = bit w n"
    by (simp add: bit_word_rotr_iff)
qed

lemma bit_rotate_pow_val:
  "val ((step_state bit_rotate_run ^^ Suc k) st) =
     uint (word_rotr (19 * Suc k) (word_of_int (val st) :: 32 word))"
proof (induction k)
  case 0
  show ?case by (simp add: step_state_def bit_rotate_val rotl13_rotr19)
next
  case (Suc k)
  have "val ((step_state bit_rotate_run ^^ Suc (Suc k)) st) =
        uint (word_rotr 19 (word_of_int (val ((step_state bit_rotate_run ^^ Suc k) st)) :: 32 word))"
    by (simp add: step_state_def bit_rotate_val rotl13_rotr19)
  also have "\<dots> = uint (word_rotr (19 + 19 * Suc k) (word_of_int (val st) :: 32 word))"
    by (simp only: Suc.IH word_of_int_uint word_rotr_word_rotr_eq)
  also have "19 + 19 * Suc k = 19 * Suc (Suc k)" by simp
  finally show ?case .
qed

lemma bit_rotate_32: 
  assumes "u32 (val st)"
  shows "val ((step_state bit_rotate_run ^^ 32) st) = val st"
proof -
  have "val ((step_state bit_rotate_run ^^ Suc 31) st) = 
    uint (word_rotr (19 * Suc 31) (word_of_int (val st) :: 32 word))"
    by (rule bit_rotate_pow_val)
  moreover have "Suc 31 = 32" "19 * Suc 31 = 608" by simp_all
  ultimately have "val ((step_state bit_rotate_run ^^ 32) st) =
      uint (word_rotr 608 (word_of_int (val st) :: 32 word))"
    by (simp only:)
  also have "\<dots> = uint (word_of_int (val st) :: 32 word)"
    by (simp only: rotr_608)
  also have "\<dots> = val st"
    using assms by (simp add: u32_def uint_word_of_int)
  finally show ?thesis .
qed

lemma bit_rotate_once:
  "val (step_state bit_rotate_run st) = 
  uint (push_bit 13 (word_of_int (val st) :: 32 word) OR drop_bit 19 (word_of_int (val st)))"
  by (simp add: step_state_def bit_rotate_val rotl13)

lemma bit_rotate_4:
  "val ((step_state bit_rotate_run ^^ 4) \<lparr>str = [], val = 1, salt = [], hexStr = []\<rparr>) = 1048576"
  by (simp add: funpow_4 bit_rotate_once)

text \<open>
  C9. A pipeline of 32 \<open>bit_rotate\<close> steps (cumulative left rotation 416, a multiple of
  32) gives back every accumulator in \<open>[0, 2^32)\<close>; a pipeline of 4 (cumulative
  rotation 20 modulo 32) changes some accumulator.
\<close>

theorem bit_rotate_round_trip:
  "(\<forall>st. 0 \<le> val st \<and> val st < 2 ^ 32 \<longrightarrow>
      (\<exists>st' outs. run_steps (replicate 32 ''bit_rotate'') st = Inr (st', outs) \<and>
         val st' = val st)) \<and>
   (\<exists>st st' outs. 0 \<le> val st \<and> val st < 2 ^ 32 \<and>
      run_steps (replicate 4 ''bit_rotate'') st = Inr (st', outs) \<and> val st' \<noteq> val st)"
proof (intro conjI allI impI)
  fix st :: HashState
  assume "0 \<le> val st \<and> val st < 2 ^ 32"
  then have "u32 (val st)" by (simp add: u32_def)
  then have "val ((step_state bit_rotate_run ^^ 32) st) = val st"
    by (rule bit_rotate_32)
  with run_steps_replicate [OF STEPS_bit_rotate, of 32 st]
  show "\<exists>st' outs. run_steps (replicate 32 ''bit_rotate'') st = Inr (st', outs) \<and>
         val st' = val st"
    by blast
next
  let ?st = "\<lparr>str = [], val = 1, salt = [], hexStr = []\<rparr>"
  obtain outs where "run_steps (replicate 4 ''bit_rotate'') ?st =
      Inr ((step_state bit_rotate_run ^^ 4) ?st, outs)"
    using run_steps_replicate [OF STEPS_bit_rotate, of 4 ?st] by blast
  moreover have "val ((step_state bit_rotate_run ^^ 4) ?st) \<noteq> val ?st"
    by (simp only: bit_rotate_4) simp
  moreover have "0 \<le> val ?st \<and> val ?st < 2 ^ 32" by simp
  ultimately show "\<exists>st st' outs. 0 \<le> val st \<and> val st < 2 ^ 32 \<and>
      run_steps (replicate 4 ''bit_rotate'') st = Inr (st', outs) \<and> val st' \<noteq> val st"
    by blast
qed

theorem bit_rotate_round_trip_witness:
  "0 \<le> val \<lparr>str = [], val = 305419896, salt = [], hexStr = []\<rparr> \<and>
   val \<lparr>str = [], val = 305419896, salt = [], hexStr = []\<rparr> < 2 ^ 32 \<and>
   (\<exists>st' outs. run_steps (replicate 32 ''bit_rotate'')
        \<lparr>str = [], val = 305419896, salt = [], hexStr = []\<rparr> = Inr (st', outs) \<and>
      val st' = 305419896)"
proof -
  have v: "0 \<le> val \<lparr>str = [], val = 305419896, salt = [], hexStr = []\<rparr> \<and>
           val \<lparr>str = [], val = 305419896, salt = [], hexStr = []\<rparr> < 2 ^ 32"
    by simp
  from bit_rotate_round_trip [THEN conjunct1, rule_format, OF v] v
  show ?thesis by simp
qed

section \<open>Hexadecimal output\<close>

lemma length_to_hex: "n < 16 ^ k \<Longrightarrow> 0 < k \<Longrightarrow> length (to_hex n) \<le> k"
proof (induction n arbitrary: k rule: to_hex.induct)
  case (1 n)
  show ?case
  proof (cases "n < 16")
    case True
    with "1.prems" show ?thesis by (simp add: to_hex.simps [of n])
  next
    case False
    obtain j where k: "k = Suc j" using "1.prems"(2) by (cases k) auto
    have "j \<noteq> 0" using False "1.prems"(1) k by (cases j) auto
    then have j: "0 < j" by simp
    have "n div 16 < 16 ^ j" using "1.prems"(1) k
      by (simp add: less_mult_imp_div_less mult.commute)
    then have "length (to_hex (n div 16)) \<le> j"
      using "1.IH" [OF False _ j] by simp
    with False k show ?thesis by (simp add: to_hex.simps [of n])
  qed
qed

lemma hex_digit_in: "d < 16 \<Longrightarrow> hex_digit d \<in> hex_chars"
proof -
  assume "d < 16"
  then have "d = 0 \<or> d = 1 \<or> d = 2 \<or> d = 3 \<or> d = 4 \<or> d = 5 \<or> d = 6 \<or> d = 7 \<or>
      d = 8 \<or> d = 9 \<or> d = 10 \<or> d = 11 \<or> d = 12 \<or> d = 13 \<or> d = 14 \<or> d = 15"
    by arith
  then show ?thesis
    by (auto simp: hex_digit_def hex_chars_def)
qed

lemma set_to_hex: "set (to_hex n) \<subseteq> hex_chars"
proof (induction n rule: to_hex.induct)
  case (1 n)
  show ?case
  proof (cases "n < 16")
    case True
    then show ?thesis by (simp add: to_hex.simps [of n] hex_digit_in)
  next
    case False
    have "set (to_hex (n div 16)) \<subseteq> hex_chars" using "1.IH" [OF False] .
    moreover have "hex_digit (n mod 16) \<in> hex_chars" by (simp add: hex_digit_in)
    ultimately show ?thesis using False by (simp add: to_hex.simps [of n])
  qed
qed

lemma length_padStart: "length (padStart n c s) = max n (length s)"
  by (simp add: padStart_def)

lemma hex_word_u32:
  assumes "u32 x"
  shows "length (padStart 8 CHR ''0'' (toString16 x)) = 8"
    and "set (padStart 8 CHR ''0'' (toString16 x)) \<subseteq> hex_chars"
proof -
  have "(16::nat) ^ 8 = 4294967296" by simp
  moreover have "0 \<le> x" "nat x < 4294967296" using assms unfolding u32_def by arith+
  ultimately have x: "0 \<le> x" "nat x < 16 ^ 8" by simp_all
  then have "length (to_hex (nat x)) \<le> 8" by (intro length_to_hex) simp_all
  with x(1) show "length (padStart 8 CHR ''0'' (toString16 x)) = 8"
    by (simp add: length_padStart toString16_def)
  have "CHR ''0'' \<in> hex_chars" by (simp add: hex_chars_def)
  with x(1) set_to_hex [of "nat x"]
  show "set (padStart 8 CHR ''0'' (toString16 x)) \<subseteq> hex_chars"
    by (auto simp: padStart_def toString16_def)
qed

section \<open>What a step reads and writes\<close>

lemma step_same:
  assumes "STEPS key = Some run" "same_input st st'"
  shows "same_input (fst (run st)) (fst (run st'))"
  using STEPS_cases [OF assms(1)] assms(2)
  by (auto simp: same_input_def result_def Let_def case_prod_beta
      charcode_sum_run_def polynomial_roll_run_def xor_fold_run_def modular_exp_run_def
      fibonacci_mix_run_def prime_multiply_run_def bit_rotate_run_def ascii_square_run_def
      avalanche_run_def salt_inject_run_def rounds_run_def hex_encode_run_def
      modulo_trim_run_def)

lemma hex_encode_same: "same_input (fst (hex_encode_run st)) st"
  by (simp add: same_input_def hex_encode_run_def Let_def)

lemma map_sum_wrap:
  "map_sum id (val \<circ> fst) (case r of Inl e \<Rightarrow> Inl e | Inr (st'', rs) \<Rightarrow> Inr (st'', x # rs)) =
   map_sum id (val \<circ> fst) r"
  by (cases r) auto

lemma run_steps_filter:
  assumes "same_input st st'"
  shows "map_sum id (val \<circ> fst) (run_steps steps st) =
         map_sum id (val \<circ> fst) (run_steps (filter (\<lambda>k. k \<noteq> ''hex_encode'') steps) st')"
  using assms
proof (induction steps arbitrary: st st')
  case Nil
  then show ?case by (simp add: same_input_def)
next
  case (Cons k ks)
  show ?case
  proof (cases "k = ''hex_encode''")
    case True
    have "same_input (step_state hex_encode_run st) st'"
      using hex_encode_same [of st] Cons.prems by (simp add: same_input_def step_state_def)
    then have "map_sum id (val \<circ> fst) (run_steps ks (step_state hex_encode_run st)) =
        map_sum id (val \<circ> fst) (run_steps (filter (\<lambda>k. k \<noteq> ''hex_encode'') ks) st')"
      by (rule Cons.IH)
    moreover have "run_steps (k # ks) st =
        (case run_steps ks (step_state hex_encode_run st) of
           Inl e \<Rightarrow> Inl e
         | Inr (st'', rs) \<Rightarrow> Inr (st'', snd (hex_encode_run st) # rs))"
      using True by (simp only: run_steps_Cons [OF STEPS_hex_encode])
    moreover have "filter (\<lambda>k. k \<noteq> ''hex_encode'') (k # ks) =
        filter (\<lambda>k. k \<noteq> ''hex_encode'') ks"
      using True by simp
    ultimately show ?thesis by (simp only: map_sum_wrap)
  next
    case False
    show ?thesis
    proof (cases "STEPS k")
      case None
      with False show ?thesis by simp
    next
      case (Some run)
      have "same_input (step_state run st) (step_state run st')"
        using step_same [OF Some Cons.prems] by (simp add: step_state_def)
      then have "map_sum id (val \<circ> fst) (run_steps ks (step_state run st)) =
          map_sum id (val \<circ> fst) (run_steps (filter (\<lambda>k. k \<noteq> ''hex_encode'') ks) (step_state run st'))"
        by (rule Cons.IH)
      moreover have "run_steps (k # ks) st =
          (case run_steps ks (step_state run st) of
             Inl e \<Rightarrow> Inl e
           | Inr (st'', rs) \<Rightarrow> Inr (st'', snd (run st) # rs))"
        by (simp only: run_steps_Cons [OF Some])
      moreover have "filter (\<lambda>k. k \<noteq> ''hex_encode'') (k # ks) =
          k # filter (\<lambda>k. k \<noteq> ''hex_encode'') ks"
        using False by simp
      moreover have "run_steps (k # filter (\<lambda>k. k \<noteq> ''hex_encode'') ks) st' =
          (case run_steps (filter (\<lambda>k. k \<noteq> ''hex_encode'') ks) (step_state run st') of
             Inl e \<Rightarrow> Inl e
           | Inr (st'', rs) \<Rightarrow> Inr (st'', snd (run st') # rs))"
        by (simp only: run_steps_Cons [OF Some])
      ultimately show ?thesis by (simp only: map_sum_wrap)
    qed
  qed
qed

text \<open>
  C10. \<open>hex_encode\<close> leaves the accumulator as it is, so the final accumulator of a run
  is that of the same run without its \<open>hex_encode\<close> steps; and two \<open>hex_encode\<close>
  steps in a row, starting with an empty \<open>hexStr\<close> and an accumulator in
  \<open>[0, 2^32)\<close>, leave a \<open>hexStr\<close> of 16 characters: twice the same word of 8
  hexadecimal digits, the zero-padded accumulator.
\<close>

theorem hex_encode_keeps_accumulator:
  "val (fst (hex_encode_run st)) = val st \<and>
   map_sum id stateVal (runHash password salt_in steps) =
     map_sum id stateVal (runHash password salt_in (filter (\<lambda>k. k \<noteq> ''hex_encode'') steps)) \<and>
   (0 \<le> val st \<and> val st < 2 ^ 32 \<and> hexStr st = [] \<longrightarrow>
      (\<exists>st' outs w. run_steps [''hex_encode'', ''hex_encode''] st = Inr (st', outs) \<and>
         val st' = val st \<and> hexStr st' = w @ w \<and> length (hexStr st') = 16 \<and>
         w = padStart 8 CHR ''0'' (toString16 (val st)) \<and> length w = 8 \<and>
         set w \<subseteq> hex_chars))"
proof (intro conjI impI)
  show "val (fst (hex_encode_run st)) = val st" by (rule hex_encode_val)
next
  show "map_sum id stateVal (runHash password salt_in steps) =
     map_sum id stateVal (runHash password salt_in (filter (\<lambda>k. k \<noteq> ''hex_encode'') steps))"
    by (simp only: runHash_stateVal) (rule run_steps_filter, simp add: same_input_def)
next
  assume a: "0 \<le> val st \<and> val st < 2 ^ 32 \<and> hexStr st = []"
  then have "u32 (val st)" by (simp add: u32_def)
  note w = hex_word_u32 [OF this]
  have "run_steps [''hex_encode'', ''hex_encode''] st =
      Inr (fst (hex_encode_run (fst (hex_encode_run st))),
           [snd (hex_encode_run st), snd (hex_encode_run (fst (hex_encode_run st)))])"
    by (simp add: STEPS_hex_encode case_prod_beta)
  moreover have "hexStr (fst (hex_encode_run (fst (hex_encode_run st)))) =
      padStart 8 CHR ''0'' (toString16 (val st)) @ padStart 8 CHR ''0'' (toString16 (val st))"
    using a by (simp add: hex_encode_run_def Let_def)
  moreover have "val (fst (hex_encode_run (fst (hex_encode_run st)))) = val st"
    by (simp add: hex_encode_val)
  ultimately show "\<exists>st' outs w. run_steps [''hex_encode'', ''hex_encode''] st = Inr (st', outs) \<and>
         val st' = val st \<and> hexStr st' = w @ w \<and> length (hexStr st') = 16 \<and>
         w = padStart 8 CHR ''0'' (toString16 (val st)) \<and> length w = 8 \<and>
         set w \<subseteq> hex_chars"
    using w by simp
qed

theorem hex_encode_keeps_accumulator_witness:
  "0 \<le> val \<lparr>str = [], val = 255, salt = [], hexStr = []\<rparr> \<and>
   val \<lparr>str = [], val = 255, salt = [], hexStr = []\<rparr> < 2 ^ 32 \<and>
   hexStr \<lparr>str = [], val = 255, salt = [], hexStr = []\<rparr> = [] \<and>
   (\<exists>st' outs. run_steps [''hex_encode'', ''hex_encode'']
        \<lparr>str = [], val = 255, salt = [], hexStr = []\<rparr> = Inr (st', outs) \<and>
      val st' = 255 \<and> hexStr st' = ''000000ff000000ff'')"
proof -
  let ?st = "\<lparr>str = [], val = 255, salt = [], hexStr = []\<rparr>"
  have a: "0 \<le> val ?st \<and> val ?st < 2 ^ 32 \<and> hexStr ?st = []" by simp
  have "padStart 8 CHR ''0'' (toString16 255) = ''000000ff''"
    by (simp add: padStart_def toString16_def to_hex.simps hex_digit_def replicate_num)
  with hex_encode_keeps_accumulator [of ?st "[]" "[]" "[]", THEN conjunct2, THEN conjunct2,
      rule_format, OF a] a
  show ?thesis by auto
qed

section \<open>Modular exponentiation\<close>

lemma modexp_loop_power:
  "0 < M \<Longrightarrow> 0 \<le> res \<Longrightarrow> res < M \<Longrightarrow> 0 \<le> base \<Longrightarrow> 0 \<le> exp \<Longrightarrow>
   modexp_loop M res base exp = res * base ^ nat exp mod M"
proof (induction M res base exp rule: modexp_loop.induct)
  case (1 M res base exp)
  show ?case
  proof (cases "0 < exp")
    case False
    with "1.prems" have "exp = 0" by simp
    with "1.prems" show ?thesis by (simp add: modexp_loop.simps [of M res base 0])
  next
    case True
    define k where "k = nat (exp div 2)"
    define res' where "res' = (if js_rem exp 2 = 1 then js_rem (res * base) M else res)"
    define base' where "base' = js_rem (base * base) M"
    have rem2: "js_rem exp 2 = exp mod 2"
      using "1.prems" by (simp add: js_rem_nonneg)
    have resb: "js_rem (res * base) M = res * base mod M"
      using "1.prems" by (simp add: js_rem_nonneg)
    have base': "base' = base * base mod M"
      using "1.prems" by (simp add: base'_def js_rem_nonneg)
    have r1: "0 \<le> res'" "res' < M"
      using "1.prems" by (simp_all add: res'_def resb)
    have b1: "0 \<le> base'" using "1.prems" by (simp add: base')
    have e1: "0 \<le> exp div 2" using "1.prems" by simp
    have "modexp_loop M res base exp = modexp_loop M res' base' (exp div 2)"
      using True by (simp add: modexp_loop.simps [of M res base exp] res'_def base'_def)
    also have "\<dots> = res' * base' ^ k mod M"
      using "1.IH" [OF True, folded res'_def base'_def, OF "1.prems"(1) r1 b1 e1]
      by (simp add: k_def)
    also have "\<dots> = res' * (base * base) ^ k mod M"
      unfolding base' by (metis mod_mult_right_eq power_mod)
    also have "(base * base) ^ k = base ^ (2 * k)"
      by (simp add: power_mult power2_eq_square)
    also have "res' * base ^ (2 * k) mod M = res * base ^ nat exp mod M"
    proof (cases "exp mod 2 = 1")
      case odd: True
      then have "exp = 2 * (exp div 2) + 1" by presburger
      then have "nat exp = nat (2 * (exp div 2) + 1)" by simp
      also have "\<dots> = Suc (2 * k)"
        using e1 by (simp add: k_def nat_add_distrib nat_mult_distrib)
      finally have "nat exp = Suc (2 * k)" .
      moreover have "res' = res * base mod M" using odd by (simp add: res'_def rem2 resb)
      ultimately show ?thesis by (simp add: mod_mult_left_eq mult.assoc)
    next
      case even: False
      then have "exp = 2 * (exp div 2)" by presburger
      then have "nat exp = nat (2 * (exp div 2))" by simp
      also have "\<dots> = 2 * k"
        using e1 by (simp add: k_def nat_mult_distrib)
      finally have "nat exp = 2 * k" .
      moreover have "res' = res" using even by (simp add: res'_def rem2)
      ultimately show ?thesis by simp
    qed
    finally show ?thesis .
  qed
qed

lemma modular_exp_val:
  assumes "u32 (val st)"
  shows "val (fst (modular_exp_run st)) =
         (if val st mod 2147483647 = 0 then 1 else val st mod 2147483647) ^ 65537 mod 2147483647"
proof -
  define b where "b = (if val st mod 2147483647 = 0 then 1 else val st mod 2147483647)"
  have v: "0 \<le> val st" using assms by (simp add: u32_def)
  have b0: "0 \<le> b" by (simp add: b_def)
  have base: "(let base = js_rem (if val st = 0 then 1 else val st) 2147483647
               in if base = 0 then 1 else base) = b"
    using v by (auto simp: b_def Let_def js_rem_nonneg)
  have loop: "modexp_loop 2147483647 1 b 65537 = b ^ 65537 mod 2147483647"
    using modexp_loop_power [of 2147483647 1 b 65537] b0 by simp
  have "0 \<le> b ^ 65537 mod 2147483647" "b ^ 65537 mod 2147483647 < 4294967296"
    using pos_mod_bound [of 2147483647 "b ^ 65537"] by simp_all
  then have "js_ushr (b ^ 65537 mod 2147483647) 0 = b ^ 65537 mod 2147483647"
    by (rule js_ushr_0_id)
  moreover have "val (fst (modular_exp_run st)) = js_ushr (modexp_loop 2147483647 1 b 65537) 0"
    using base by (simp add: modular_exp_run_def Let_def)
  ultimately have "val (fst (modular_exp_run st)) = b ^ 65537 mod 2147483647"
    by (simp only: loop)
  then show ?thesis by (simp only: b_def)
qed

lemma modular_exp_spec_multiple:
  assumes "acc \<noteq> 0" "acc mod 2147483647 = 0"
  shows "modular_exp_spec acc = 0"
proof -
  have "acc ^ 65537 mod 2147483647 = (acc mod 2147483647) ^ 65537 mod 2147483647"
    by (simp only: power_mod)
  also have "\<dots> = 0" by (simp only: assms(2)) simp
  finally show ?thesis using assms(1) by (simp add: modular_exp_spec_def)
qed

text \<open>
  C4 (amended). On an accumulator in \<open>[0, 2^32)\<close>, \<open>modular_exp\<close> sets the accumulator
  to \<open>base^65537 mod (2^31 - 1)\<close> where the base is the accumulator reduced modulo
  \<open>2^31 - 1\<close>, or 1 when that residue is 0. So the new accumulator is
  \<open>acc^65537 mod (2^31 - 1)\<close> unless \<open>2^31 - 1\<close> divides the accumulator, and 1 when it
  does (accumulator 0, \<open>2^31 - 1\<close> or \<open>2^32 - 2\<close>).
\<close>

theorem modular_exp_residue:
  assumes "0 \<le> val st" "val st < 2 ^ 32"
  shows "val (fst (modular_exp_run st)) =
           (if val st mod (2 ^ 31 - 1) = 0 then 1 else val st mod (2 ^ 31 - 1)) ^ 65537
             mod (2 ^ 31 - 1) \<and>
         (val st mod (2 ^ 31 - 1) \<noteq> 0 \<longrightarrow>
            val (fst (modular_exp_run st)) = val st ^ 65537 mod (2 ^ 31 - 1)) \<and>
         (val st mod (2 ^ 31 - 1) = 0 \<longrightarrow> val (fst (modular_exp_run st)) = 1)"
proof -
  have "u32 (val st)" using assms by (simp add: u32_def)
  note v = modular_exp_val [OF this]
  have m: "(2::int) ^ 31 - 1 = 2147483647" by simp
  show ?thesis
    unfolding m using v by (simp add: power_mod)
qed

theorem modular_exp_residue_witness:
  "0 \<le> val \<lparr>str = [], val = 4294967294, salt = [], hexStr = []\<rparr> \<and>
   val \<lparr>str = [], val = 4294967294, salt = [], hexStr = []\<rparr> < 2 ^ 32 \<and>
   val (fst (modular_exp_run \<lparr>str = [], val = 4294967294, salt = [], hexStr = []\<rparr>)) = 1"
proof -
  let ?st = "\<lparr>str = [], val = 4294967294, salt = [], hexStr = []\<rparr>"
  have a: "0 \<le> val ?st" and b: "val ?st < 2 ^ 32" by simp_all
  have "val ?st mod (2 ^ 31 - 1) = 0" by simp
  with modular_exp_residue [OF a b] a b show ?thesis by blast
qed

text \<open>
  C4 as stated fails at the accumulator \<open>2^31 - 1\<close>: the step leaves 1, while
  \<open>(2^31 - 1)^65537 mod (2^31 - 1)\<close> is 0.
\<close>

theorem modular_exp_counterexample:
  "val (fst (modular_exp_run \<lparr>str = [], val = 2147483647, salt = [], hexStr = []\<rparr>)) = 1 \<and>
   modular_exp_spec 2147483647 = 0"
proof
  have "u32 (val \<lparr>str = [], val = 2147483647, salt = [], hexStr = []\<rparr>)"
    by (simp add: u32_def)
  from modular_exp_val [OF this]
  show "val (fst (modular_exp_run \<lparr>str = [], val = 2147483647, salt = [], hexStr = []\<rparr>)) = 1"
    by simp
  show "modular_exp_spec 2147483647 = 0"
    by (rule modular_exp_spec_multiple) simp_all
qed

section \<open>Salt injection\<close>

lemma horner31_sum: "horner31 cs = sum_list (map (\<lambda>i. cs ! i * 31 ^ i) [0..<length cs])"
proof (induction cs)
  case Nil
  show ?case by simp
next
  case (Cons c cs)
  have "[0..<length (c # cs)] = 0 # map Suc [0..<length cs]"
    by (simp add: upt_conv_Cons map_Suc_upt del: upt_Suc)
  then have "sum_list (map (\<lambda>i. (c # cs) ! i * 31 ^ i) [0..<length (c # cs)]) =
      c + sum_list (map (\<lambda>i. cs ! i * 31 ^ Suc i) [0..<length cs])"
    by (simp add: comp_def del: upt_Suc)
  also have "sum_list (map (\<lambda>i. cs ! i * 31 ^ Suc i) [0..<length cs]) =
      31 * sum_list (map (\<lambda>i. cs ! i * 31 ^ i) [0..<length cs])"
    by (simp add: sum_list_const_mult [symmetric] mult.left_commute)
  finally show ?case using Cons.IH by simp
qed

lemma salt_loop_word:
  "(word_of_int (fst (foldl salt_body (sv, p) cs)) :: 32 word) =
     word_of_int (sv + p * horner31 (map charCodeAt0 cs))"
proof (induction cs arbitrary: sv p)
  case Nil
  show ?case by simp
next
  case (Cons c cs)
  have "(word_of_int (fst (foldl salt_body (sv, p) (c # cs))) :: 32 word) =
      word_of_int (js_ushr (sv + charCodeAt0 c * p) 0 +
        js_ushr (Math_imul p 31) 0 * horner31 (map charCodeAt0 cs))"
    using Cons.IH [of "js_ushr (sv + charCodeAt0 c * p) 0" "js_ushr (Math_imul p 31) 0"]
    by (simp add: salt_body_def)
  also have "\<dots> = word_of_int (sv + p * horner31 (map charCodeAt0 (c # cs)))"
    by (simp add: w32_ops algebra_simps)
  finally show ?case .
qed

lemma salt_loop_u32: "u32 sv \<Longrightarrow> u32 (fst (foldl salt_body (sv, p) cs))"
  by (induction cs arbitrary: sv p) (simp_all add: salt_body_def)

lemma salt_loop_val:
  "fst (foldl salt_body (0, 1) (string_iterator s)) =
     horner31 (map charCodeAt0 (string_iterator s)) mod 2 ^ 32"
proof -
  let ?r = "fst (foldl salt_body (0, 1) (string_iterator s))"
  have "u32 ?r" by (rule salt_loop_u32) (simp add: u32_def)
  then have "?r = uint (word_of_int ?r :: 32 word)"
    by (simp add: u32_def uint_word_of_int)
  also have "\<dots> = uint (word_of_int (horner31 (map charCodeAt0 (string_iterator s))) :: 32 word)"
    by (simp add: salt_loop_word)
  also have "\<dots> = horner31 (map charCodeAt0 (string_iterator s)) mod 2 ^ 32"
    by (simp add: uint_word_of_int)
  finally show ?thesis .
qed

lemma salt_inject_val:
  assumes "u32 (val st)"
  shows "val (fst (salt_inject_run st)) =
         val st XOR
           horner31 (map charCodeAt0
             (string_iterator (if salt st \<noteq> [] then salt st else js ''x''))) mod 2 ^ 32"
proof -
  let ?s = "if salt st \<noteq> [] then salt st else js ''x''"
  let ?sv = "horner31 (map charCodeAt0 (string_iterator ?s)) mod 2 ^ 32"
  have "val (fst (salt_inject_run st)) =
      js_ushr (js_xor (val st) (fst (foldl salt_body (0, 1) (string_iterator ?s)))) 0"
    by (simp add: salt_inject_run_def Let_def case_prod_beta salt_body_def)
  also have "\<dots> = js_ushr (js_xor (val st) ?sv) 0"
    by (simp only: salt_loop_val)
  also have "\<dots> = val st XOR ?sv"
  proof (rule js_xor_u32 [OF assms])
    have "u32 (fst (foldl salt_body (0, 1) (string_iterator ?s)))"
      by (rule salt_loop_u32) (simp add: u32_def)
    then show "u32 ?sv" by (simp only: salt_loop_val)
  qed
  finally show ?thesis .
qed

lemma char_code_single: "length c = 1 \<Longrightarrow> charCodeAt0 c = codePointAt0 c"
  by (cases c rule: codePointAt0.cases) simp_all

lemma char_codes_no_pair:
  assumes "no_surrogate_pair s"
  shows "map charCodeAt0 (string_iterator s) = code_points s"
  using assms
  by (simp add: no_surrogate_pair_def code_points_def list_all_iff char_code_single)

lemma poly_hash32_no_pair:
  assumes "no_surrogate_pair s"
  shows "horner31 (map charCodeAt0 (string_iterator s)) mod 2 ^ 32 = poly_hash32 s"
  by (simp add: poly_hash32_def Let_def horner31_sum char_codes_no_pair [OF assms])

lemma no_surrogate_pair_x: "no_surrogate_pair (js ''x'')"
  by (simp add: no_surrogate_pair_def js_def)

lemma poly_hash32_x: "poly_hash32 (js ''x'') = 120"
  by (simp add: poly_hash32_def code_points_def js_def Let_def)

lemma poly_hash32_empty: "poly_hash32 [] = 0"
  by (simp add: poly_hash32_def code_points_def)

text \<open>
  C3 (amended). On an accumulator in \<open>[0, 2^32)\<close> and a salt without surrogate pairs,
  \<open>salt_inject\<close> sets the accumulator to \<open>accumulator XOR sv\<close>, where \<open>sv\<close> is the
  polynomial hash (sum of \<open>salt\<^sub>i * 31^i\<close>, truncated to 32 bits) of the salt alone
  when the salt is not empty, and of the string \<open>x\<close> when the salt is empty: for an
  empty salt \<open>sv = 120\<close>, and the accumulator becomes \<open>accumulator XOR 120\<close>. Salts
  with a surrogate pair are left out.
\<close>

theorem salt_inject_xor:
  assumes "0 \<le> val st" "val st < 2 ^ 32" "no_surrogate_pair (salt st)"
  shows "(salt st \<noteq> [] \<longrightarrow> val (fst (salt_inject_run st)) = val st XOR poly_hash32 (salt st)) \<and>
         (salt st = [] \<longrightarrow> val (fst (salt_inject_run st)) = val st XOR 120)"
proof -
  let ?s = "if salt st \<noteq> [] then salt st else js ''x''"
  have "u32 (val st)" using assms(1,2) by (simp add: u32_def)
  note v = salt_inject_val [OF this]
  have "no_surrogate_pair ?s" using assms(3) by (simp add: no_surrogate_pair_x)
  then have "horner31 (map charCodeAt0 (string_iterator ?s)) mod 2 ^ 32 = poly_hash32 ?s"
    by (rule poly_hash32_no_pair)
  with v have "val (fst (salt_inject_run st)) = val st XOR poly_hash32 ?s"
    by (simp only:)
  then show ?thesis by (simp add: poly_hash32_x)
qed

theorem salt_inject_xor_witness:
  "0 \<le> val \<lparr>str = [], val = 5, salt = js ''ab'', hexStr = []\<rparr> \<and>
   val \<lparr>str = [], val = 5, salt = js ''ab'', hexStr = []\<rparr> < 2 ^ 32 \<and>
   no_surrogate_pair (salt \<lparr>str = [], val = 5, salt = js ''ab'', hexStr = []\<rparr>) \<and>
   salt \<lparr>str = [], val = 5, salt = js ''ab'', hexStr = []\<rparr> \<noteq> [] \<and>
   poly_hash32 (js ''ab'') = 3135 \<and>
   val (fst (salt_inject_run \<lparr>str = [], val = 5, salt = js ''ab'', hexStr = []\<rparr>)) = 5 XOR 3135"
proof -
  let ?st = "\<lparr>str = [], val = 5, salt = js ''ab'', hexStr = []\<rparr>"
  have a: "0 \<le> val ?st" and b: "val ?st < 2 ^ 32" by simp_all
  have n: "no_surrogate_pair (salt ?st)"
    by (simp add: no_surrogate_pair_def js_def is_high_surrogate_def)
  have c: "salt ?st \<noteq> []" by (simp add: js_def)
  have d: "poly_hash32 (js ''ab'') = 3135"
    by (simp add: poly_hash32_def code_points_def js_def Let_def upt_conv_Cons
        is_high_surrogate_def)
  from salt_inject_xor [OF a b n] a b n c d show ?thesis by simp
qed

text \<open>
  C3 as stated fails for the empty salt: the accumulator 0 becomes 120, not
  \<open>0 XOR 0 = 0\<close>.
\<close>

theorem salt_inject_counterexample:
  "val (fst (salt_inject_run \<lparr>str = [], val = 0, salt = [], hexStr = []\<rparr>)) = 120 \<and>
   poly_hash32 [] = 0"
proof
  have "u32 (val \<lparr>str = [], val = 0, salt = [], hexStr = []\<rparr>)" by (simp add: u32_def)
  from salt_inject_val [OF this]
  show "val (fst (salt_inject_run \<lparr>str = [], val = 0, salt = [], hexStr = []\<rparr>)) = 120"
    by (simp add: js_def)
  show "poly_hash32 [] = 0" by (rule poly_hash32_empty)
qed

section \<open>Char codes and code points\<close>

lemma string_iterator_bmp:
  "\<forall>u \<in> set s. \<not> is_high_surrogate u \<Longrightarrow> string_iterator s = map (\<lambda>u. [u]) s"
  by (induction s rule: string_iterator.induct) simp_all

lemma char_codes_bmp:
  assumes "\<forall>u \<in> set s. \<not> is_high_surrogate u"
  shows "map charCodeAt0 (string_iterator s) = code_points s"
  by (simp add: string_iterator_bmp [OF assms] code_points_def)

lemma code_points_grinning_face: "code_points [0xD83D, 0xDE00] = [128512]"
  by (simp add: code_points_def is_high_surrogate_def is_low_surrogate_def)

text \<open>
  C5 fails on the code for a string with a character outside the Basic Multilingual
  Plane. The string U+1F600 is the surrogate pair D83D DE00; it is iterated as one
  element whose code point is 128512, but \<open>charcode_sum\<close> and \<open>xor_fold\<close> put 55357
  (the high surrogate D83D) into the accumulator and \<open>ascii_square\<close> its square, and a
  run of \<open>charcode_sum\<close> ends at seed + 55357.
\<close>

theorem string_steps_non_bmp:
  "code_points [0xD83D, 0xDE00] = [128512] \<and>
   val (fst (charcode_sum_run \<lparr>str = [0xD83D, 0xDE00], val = 0, salt = [], hexStr = []\<rparr>)) = 55357 \<and>
   val (fst (xor_fold_run \<lparr>str = [0xD83D, 0xDE00], val = 0, salt = [], hexStr = []\<rparr>)) = 55357 \<and>
   val (fst (ascii_square_run \<lparr>str = [0xD83D, 0xDE00], val = 0, salt = [], hexStr = []\<rparr>)) =
     55357 * 55357 \<and>
   seed [0xD83D, 0xDE00] = 37305226 \<and>
   map_sum id stateVal (runHash [0xD83D, 0xDE00] [] [''charcode_sum'']) = Inr (37305226 + 55357)"
proof (intro conjI)
  show "code_points [0xD83D, 0xDE00] = [128512]" by (rule code_points_grinning_face)
  show "val (fst (charcode_sum_run \<lparr>str = [0xD83D, 0xDE00], val = 0, salt = [], hexStr = []\<rparr>)) = 55357"
    by (simp add: charcode_sum_run_def is_high_surrogate_def is_low_surrogate_def js_ushr_def)
  show "val (fst (xor_fold_run \<lparr>str = [0xD83D, 0xDE00], val = 0, salt = [], hexStr = []\<rparr>)) = 55357"
    by (simp add: xor_fold_run_def is_high_surrogate_def is_low_surrogate_def js_ushr_def js_xor_def)
  show "val (fst (ascii_square_run \<lparr>str = [0xD83D, 0xDE00], val = 0, salt = [], hexStr = []\<rparr>)) =
     55357 * 55357"
    by (simp add: ascii_square_run_def is_high_surrogate_def is_low_surrogate_def js_ushr_def js_rem_def)
  show s: "seed [0xD83D, 0xDE00] = 37305226"
    by (simp add: seed_def double_round_def js_ushr_def)
  have "STEPS ''charcode_sum'' = Some charcode_sum_run"
    by (simp add: STEPS_def STEPS_entries_def)
  moreover have "val (fst (charcode_sum_run
      \<lparr>str = [0xD83D, 0xDE00], val = 37305226, salt = [], hexStr = []\<rparr>)) = 37305226 + 55357"
    by (simp add: charcode_sum_run_def is_high_surrogate_def is_low_surrogate_def js_ushr_def)
  ultimately show "map_sum id stateVal (runHash [0xD83D, 0xDE00] [] [''charcode_sum'']) =
      Inr (37305226 + 55357)"
    by (simp add: runHash_stateVal s case_prod_beta)
qed

section \<open>The final hash\<close>

lemma avalanche_run_val:
  "val (fst (avalanche_run st)) = uint (avalanche_finalize (word_of_int (val st)))"
  by (simp add: avalanche_run_def avalanche_finalize_def Let_def js_ushr_0 w32_ops)

lemma rounds_body_word:
  "(word_of_int (rounds_body h) :: 32 word) = avalanche_finalize (word_of_int h)"
  by (simp add: rounds_body_def avalanche_finalize_def Let_def w32_ops)

lemma second_word_sint: "second_word h1 = sint (avalanche_finalize (word_of_int h1))"
  by (simp add: second_word_def avalanche_finalize_def Let_def js_xor_def w32_ops)

lemma step_hexStr:
  assumes "STEPS key = Some run" "key \<noteq> ''hex_encode''"
  shows "hexStr (fst (run st)) = hexStr st"
proof -
  have "run = charcode_sum_run \<or> run = polynomial_roll_run \<or> run = xor_fold_run \<or>
      run = modular_exp_run \<or> run = fibonacci_mix_run \<or> run = prime_multiply_run \<or>
      run = bit_rotate_run \<or> run = ascii_square_run \<or> run = avalanche_run \<or>
      run = salt_inject_run \<or> run = rounds_run \<or> run = modulo_trim_run"
    using assms by (simp add: STEPS_def STEPS_entries_def split: if_splits)
  then show ?thesis
    by (auto simp: result_def Let_def case_prod_beta
        charcode_sum_run_def polynomial_roll_run_def xor_fold_run_def modular_exp_run_def
        fibonacci_mix_run_def prime_multiply_run_def bit_rotate_run_def ascii_square_run_def
        avalanche_run_def salt_inject_run_def rounds_run_def modulo_trim_run_def)
qed

lemma hex_encode_hexStr:
  "hexStr (fst (hex_encode_run st)) = hexStr st @ padStart 8 CHR ''0'' (toString16 (val st))"
  by (simp add: hex_encode_run_def Let_def)

lemma run_steps_hexStr:
  assumes "run_steps steps st = Inr (st', outs)" "u32 (val st)"
  shows "u32 (val st') \<and>
         length (hexStr st') = length (hexStr st) + 8 * count_list steps ''hex_encode''"
  using assms
proof (induction steps arbitrary: st outs)
  case Nil
  then show ?case by simp
next
  case (Cons k ks)
  from Cons.prems(1) obtain run where run: "STEPS k = Some run"
    by (cases "STEPS k") auto
  from Cons.prems(1) obtain outs' where r: "run_steps ks (step_state run st) = Inr (st', outs')"
    by (auto simp: run_steps_Cons [OF run] simp del: run_steps.simps split: sum.splits)
  have u: "u32 (val (step_state run st))"
    using step_u32 [OF run Cons.prems(2)] by (simp add: step_state_def)
  note ih = Cons.IH [OF r u]
  show ?case
  proof (cases "k = ''hex_encode''")
    case True
    with run have "run = hex_encode_run" by (simp add: STEPS_hex_encode)
    then have "length (hexStr (step_state run st)) = length (hexStr st) + 8"
      using hex_word_u32(1) [OF Cons.prems(2)] by (simp add: step_state_def hex_encode_hexStr)
    with ih True show ?thesis by simp
  next
    case False
    then have "hexStr (step_state run st) = hexStr st"
      using step_hexStr [OF run] by (simp add: step_state_def)
    with ih False show ?thesis by simp
  qed
qed

lemma runHash_finalHash_hex:
  assumes "runHash password salt_in steps = Inr r" "0 < count_list steps ''hex_encode''"
  shows "length (finalHash r) = 8 * count_list steps ''hex_encode''"
proof -
  let ?st = "\<lparr>str = password @ salt_in, val = seed password, salt = salt_in, hexStr = []\<rparr>"
  from assms(1) obtain st' outs where rs: "run_steps steps ?st = Inr (st', outs)"
    by (auto simp: runHash_def Let_def split: sum.splits)
  have "u32 (val ?st)" by (simp add: seed_u32)
  from run_steps_hexStr [OF rs this]
  have l: "length (hexStr st') = 8 * count_list steps ''hex_encode''" by simp
  with assms(2) have "hexStr st' \<noteq> []" by auto
  with assms(1) rs have "finalHash r = hexStr st'"
    by (auto simp: runHash_def Let_def)
  with l show ?thesis by simp
qed

lemma runHash_finalHash_no_hex:
  assumes "runHash password salt_in steps = Inr r" "count_list steps ''hex_encode'' = 0"
  shows "finalHash r =
           padStart 8 CHR ''0'' (toString16 (stateVal r)) @
           padStart 8 CHR ''0'' (toString16 (sint (avalanche_finalize (word_of_int (stateVal r)))))"
    and "u32 (stateVal r)"
proof -
  let ?st = "\<lparr>str = password @ salt_in, val = seed password, salt = salt_in, hexStr = []\<rparr>"
  from assms(1) obtain st' outs where rs: "run_steps steps ?st = Inr (st', outs)"
    by (auto simp: runHash_def Let_def split: sum.splits)
  have "u32 (val ?st)" by (simp add: seed_u32)
  from run_steps_hexStr [OF rs this] assms(2)
  have l: "hexStr st' = []" and u: "u32 (val st')" by simp_all
  from assms(1) rs l show "finalHash r =
      padStart 8 CHR ''0'' (toString16 (stateVal r)) @
      padStart 8 CHR ''0'' (toString16 (sint (avalanche_finalize (word_of_int (stateVal r)))))"
    by (auto simp: runHash_def Let_def second_word_sint)
  from assms(1) rs u show "u32 (stateVal r)"
    by (auto simp: runHash_def Let_def)
qed

lemma two_word_digest_when_nonneg:
  assumes "u32 acc" "0 \<le> sint (avalanche_finalize (word_of_int acc))"
  shows "padStart 8 CHR ''0'' (toString16 acc) @
         padStart 8 CHR ''0'' (toString16 (sint (avalanche_finalize (word_of_int acc)))) =
         two_word_digest acc"
proof -
  let ?w = "avalanche_finalize (word_of_int acc)"
  have "sint ?w < 2 ^ 32"
    using sint_lt [of ?w] by simp
  then have "take_bit 32 (sint ?w) = sint ?w"
    using assms(2) by (simp add: take_bit_int_eq_self)
  moreover have "uint ?w = take_bit 32 (sint ?w)"
    using uint_sint [of ?w] by simp
  ultimately have "sint ?w = uint ?w" by simp
  then have "nat (sint ?w) = unat ?w" by (simp only: unat_eq_nat_uint)
  with assms show ?thesis
    by (simp add: two_word_digest_def toString16_def u32_def)
qed

lemma seed_ab: "seed (js ''ab'') = 37305226"
  by (simp add: seed_def js_def double_round_def js_ushr_def)

lemma charcode_sum_ab:
  "charcode_sum_run \<lparr>str = js ''ab'', val = 37305226, salt = [], hexStr = []\<rparr> =
     (\<lparr>str = js ''ab'', val = 37305421, salt = [], hexStr = []\<rparr>,
      \<lparr>rval = 37305421, display = None\<rparr>)"
  by (simp add: charcode_sum_run_def result_def js_def is_high_surrogate_def js_ushr_def)

lemma second_word_ab: "second_word 37305421 = - 29306163"
  by (simp add: second_word_def Let_def js_ushr_def js_xor_def Math_imul_def)

lemma hex_02393c4d: "padStart 8 CHR ''0'' (toString16 37305421) = ''02393c4d''"
  by (simp add: padStart_def toString16_def to_hex.simps hex_digit_def replicate_num)

lemma hex_minus_1bf2d33: "padStart 8 CHR ''0'' (toString16 (- 29306163)) = ''-1bf2d33''"
  by (simp add: padStart_def toString16_def to_hex.simps hex_digit_def)

lemma avalanche_finalize_ab: "avalanche_finalize 37305421 = 4265661133"
  by (simp add: avalanche_finalize_def Let_def)

lemma hex_fe40d2cd: "padStart 8 CHR ''0'' (to_hex 4265661133) = ''fe40d2cd''"
  by (simp add: padStart_def to_hex.simps hex_digit_def)

lemma hex_nat_02393c4d: "padStart 8 CHR ''0'' (to_hex 37305421) = ''02393c4d''"
  by (simp add: padStart_def to_hex.simps hex_digit_def replicate_num)

text \<open>
  C1 fails on the code when the second word has its top bit set. For the password
  \<open>ab\<close>, the empty salt and the pipeline \<open>charcode_sum\<close> the final accumulator is
  37305421 and its finalized word is \<open>fe40d2cd\<close>; \<open>runHash\<close> keeps that word as a
  negative Number, so \<open>toString(16)\<close> prints a minus sign and the magnitude, and
  the final hash is \<open>02393c4d-1bf2d33\<close> where the two-word digest is
  \<open>02393c4dfe40d2cd\<close>.
\<close>

theorem final_hash_negative_second_word:
  "runHash (js ''ab'') [] [''charcode_sum''] =
     Inr \<lparr>finalHash = ''02393c4d-1bf2d33'',
          trace = [(''charcode_sum'', \<lparr>rval = 37305421, display = None\<rparr>)],
          stepOutputs = [\<lparr>rval = 37305421, display = None\<rparr>],
          stateVal = 37305421\<rparr> \<and>
   two_word_digest 37305421 = ''02393c4dfe40d2cd''"
proof
  have "STEPS ''charcode_sum'' = Some charcode_sum_run"
    by (simp add: STEPS_def STEPS_entries_def)
  then show "runHash (js ''ab'') [] [''charcode_sum''] =
     Inr \<lparr>finalHash = ''02393c4d-1bf2d33'',
          trace = [(''charcode_sum'', \<lparr>rval = 37305421, display = None\<rparr>)],
          stepOutputs = [\<lparr>rval = 37305421, display = None\<rparr>],
          stateVal = 37305421\<rparr>"
    by (simp add: runHash_def Let_def seed_ab charcode_sum_ab second_word_ab
        hex_02393c4d hex_minus_1bf2d33)
  have "unat (4265661133 :: 32 word) = 4265661133" by simp
  then show "two_word_digest 37305421 = ''02393c4dfe40d2cd''"
    by (simp add: two_word_digest_def avalanche_finalize_ab hex_fe40d2cd hex_nat_02393c4d)
qed

section \<open>Failing runs and the empty pipeline\<close>

lemma runAvalanche_unknown:
  assumes "key \<in> set steps" "STEPS key = None"
  shows "runAvalanche password salt_in steps = Inl TypeError"
  by (simp add: runAvalanche_def runHash_unknown [OF assms])

text \<open>
  C8 (amended). When the pipeline holds an id that is not in the catalog, \<open>runHash\<close>
  fails for every password and salt, and the error it fails with is the TypeError of
  the runtime: the lookup gives no step and calling its \<open>run\<close> throws. Nothing
  recovers it: \<open>runAvalanche\<close> fails the same way and the click handler ends with
  the uncaught error.
\<close>

theorem unknown_step_fails:
  assumes "key \<in> set steps" "key \<notin> set catalog_ids"
  shows "runHash password salt_in steps = Inl TypeError \<and>
         runAvalanche password salt_in steps = Inl TypeError \<and>
         btn_run_click steps password_input salt_input = Uncaught TypeError"
proof -
  have n: "STEPS key = None" using assms(2) by (simp add: STEPS_None_iff)
  have "steps \<noteq> []" using assms(1) by auto
  then show ?thesis
    by (simp add: btn_run_click_def runHash_unknown [OF assms(1) n]
        runAvalanche_unknown [OF assms(1) n])
qed

theorem unknown_step_fails_witness:
  "''not_a_real_step'' \<in> set [''not_a_real_step''] \<and>
   ''not_a_real_step'' \<notin> set catalog_ids \<and>
   runHash (js ''p'') (js ''s'') [''not_a_real_step''] = Inl TypeError"
proof -
  have a: "''not_a_real_step'' \<in> set [''not_a_real_step'']" by simp
  have b: "''not_a_real_step'' \<notin> set catalog_ids"
    by (simp add: catalog_ids_def STEPS_entries_def)
  from unknown_step_fails [OF a b, of "js ''p''" "js ''s''"] a b
  show ?thesis by blast
qed

text \<open>
  C8 as stated fails: on the password \<open>p\<close>, the salt \<open>s\<close> and the pipeline
  \<open>not_a_real_step\<close> the run fails with a TypeError, which is not an error named
  UnknownStepError.
\<close>

theorem unknown_step_counterexample:
  "runHash (js ''p'') (js ''s'') [''not_a_real_step''] = Inl TypeError \<and>
   runHash (js ''p'') (js ''s'') [''not_a_real_step''] \<noteq> Inl (JsError ''UnknownStepError'')"
proof -
  have "STEPS ''not_a_real_step'' = None"
    by (simp add: STEPS_def STEPS_entries_def)
  then have "runHash (js ''p'') (js ''s'') [''not_a_real_step''] = Inl TypeError"
    by (intro runHash_unknown [of "''not_a_real_step''"]) simp_all
  then show ?thesis by simp
qed

text \<open>
  C2 (amended). The empty pipeline is rejected at the boundary, not by \<open>runHash\<close>:
  the click handler alerts and returns without running anything, while \<open>runHash\<close>
  itself, given no step, returns a result made from the seed alone: empty trace, the
  seed as final accumulator, and the two-word digest of the seed.
\<close>

theorem empty_pipeline_at_boundary:
  "btn_run_click [] password_input salt_input =
     Alert ''Add at least one step to your pipeline first!'' \<and>
   runHash password salt_in [] =
     Inr \<lparr>finalHash = padStart 8 CHR ''0'' (toString16 (seed password)) @
                      padStart 8 CHR ''0'' (toString16 (second_word (seed password))),
          trace = [], stepOutputs = [], stateVal = seed password\<rparr>"
  by (simp add: btn_run_click_def runHash_def Let_def)

text \<open>
  C2 as stated fails: \<open>runHash\<close> on the empty password, empty salt and empty
  pipeline returns a result.
\<close>

theorem empty_pipeline_counterexample:
  "runHash [] [] [] =
     Inr \<lparr>finalHash = ''0000000000000000'', trace = [], stepOutputs = [], stateVal = 0\<rparr>"
  by (simp add: runHash_def Let_def seed_def double_round_def second_word_def
      js_ushr_def js_xor_def Math_imul_def toString16_def to_hex_0_15 hex_digit_def padStart_def
      replicate_8)

section \<open>The avalanche report\<close>

lemma flipChar_empty: "flipChar [] idx = Inl TypeError"
  by (simp add: flipChar_def)

lemma flipChar_single: "flipChar [c] 0 = Inr [c + 1]"
  by (simp add: flipChar_def)

lemma runAvalanche_empty_password: "runAvalanche [] salt_in steps = Inl TypeError"
proof (cases "runHash [] salt_in steps")
  case (Inl e)
  with runHash_error [OF Inl] show ?thesis by (simp add: runAvalanche_def)
next
  case (Inr r)
  then show ?thesis by (simp add: runAvalanche_def flipChar_empty)
qed

lemma countDifferentChars_same: "countDifferentChars a a = 0"
  by (simp add: countDifferentChars_def)

text \<open>
  C7 (amended). For a password of one code unit and a pipeline of catalog ids,
  \<open>runAvalanche\<close> completes with all four rows; the first, middle and last flips are the
  same mutated password (the unit plus one) and appear as three equal rows, not
  deduplicated. A zero-length password makes \<open>runAvalanche\<close> fail in \<open>flipChar\<close>; the
  click handler never passes one, it puts \<open>password\<close> in its place.
\<close>

theorem avalanche_single_character:
  assumes "set steps \<subseteq> set catalog_ids"
  shows "(\<exists>r0 r1. runHash [c] salt_in steps = Inr r0 \<and> runHash [c + 1] salt_in steps = Inr r1 \<and>
            runAvalanche [c] salt_in steps =
              Inr [\<lparr>av_label = ''Original'', av_pw = [c], av_hash = finalHash r0, av_diff = 0\<rparr>,
                   \<lparr>av_label = ''Flip 1st char'', av_pw = [c + 1], av_hash = finalHash r1,
                      av_diff = countDifferentChars (finalHash r0) (finalHash r1)\<rparr>,
                   \<lparr>av_label = ''Flip mid char'', av_pw = [c + 1], av_hash = finalHash r1,
                      av_diff = countDifferentChars (finalHash r0) (finalHash r1)\<rparr>,
                   \<lparr>av_label = ''Flip last char'', av_pw = [c + 1], av_hash = finalHash r1,
                      av_diff = countDifferentChars (finalHash r0) (finalHash r1)\<rparr>]) \<and>
         runAvalanche [] salt_in steps = Inl TypeError \<and>
         btn_run_click steps [] salt_input = btn_run_click steps (js ''password'') salt_input"
proof (intro conjI)
  obtain r0 where r0: "runHash [c] salt_in steps = Inr r0"
    using runHash_total [OF assms] by blast
  obtain r1 where r1: "runHash [c + 1] salt_in steps = Inr r1"
    using runHash_total [OF assms] by blast
  have "runAvalanche [c] salt_in steps =
      Inr [\<lparr>av_label = ''Original'', av_pw = [c], av_hash = finalHash r0, av_diff = 0\<rparr>,
           \<lparr>av_label = ''Flip 1st char'', av_pw = [c + 1], av_hash = finalHash r1,
              av_diff = countDifferentChars (finalHash r0) (finalHash r1)\<rparr>,
           \<lparr>av_label = ''Flip mid char'', av_pw = [c + 1], av_hash = finalHash r1,
              av_diff = countDifferentChars (finalHash r0) (finalHash r1)\<rparr>,
           \<lparr>av_label = ''Flip last char'', av_pw = [c + 1], av_hash = finalHash r1,
              av_diff = countDifferentChars (finalHash r0) (finalHash r1)\<rparr>]"
    by (simp add: runAvalanche_def r0 r1 flipChar_single countDifferentChars_same Let_def)
  with r0 r1 show "\<exists>r0 r1. runHash [c] salt_in steps = Inr r0 \<and>
      runHash [c + 1] salt_in steps = Inr r1 \<and>
      runAvalanche [c] salt_in steps =
        Inr [\<lparr>av_label = ''Original'', av_pw = [c], av_hash = finalHash r0, av_diff = 0\<rparr>,
             \<lparr>av_label = ''Flip 1st char'', av_pw = [c + 1], av_hash = finalHash r1,
                av_diff = countDifferentChars (finalHash r0) (finalHash r1)\<rparr>,
             \<lparr>av_label = ''Flip mid char'', av_pw = [c + 1], av_hash = finalHash r1,
                av_diff = countDifferentChars (finalHash r0) (finalHash r1)\<rparr>,
             \<lparr>av_label = ''Flip last char'', av_pw = [c + 1], av_hash = finalHash r1,
                av_diff = countDifferentChars (finalHash r0) (finalHash r1)\<rparr>]"
    by blast
next
  show "runAvalanche [] salt_in steps = Inl TypeError"
    by (rule runAvalanche_empty_password)
next
  have "js ''password'' \<noteq> []" by (simp add: js_def)
  then show "btn_run_click steps [] salt_input = btn_run_click steps (js ''password'') salt_input"
    by (simp add: btn_run_click_def)
qed

lemma seed_single: "seed [c] = 2166136261"
  by (simp add: seed_def double_round_def js_ushr_def)

lemma hex_811c9dc5: "padStart 8 CHR ''0'' (toString16 2166136261) = ''811c9dc5''"
  by (simp add: padStart_def toString16_def to_hex.simps hex_digit_def)

lemma runHash_single_hex_encode:
  "runHash [c] [] [''hex_encode''] =
     Inr \<lparr>finalHash = ''811c9dc5'',
          trace = [(''hex_encode'', \<lparr>rval = 2166136261, display = Some ''0x811c9dc5''\<rparr>)],
          stepOutputs = [\<lparr>rval = 2166136261, display = Some ''0x811c9dc5''\<rparr>],
          stateVal = 2166136261\<rparr>"
  by (simp add: runHash_def Let_def seed_single hex_811c9dc5 STEPS_hex_encode hex_encode_run_def)

theorem avalanche_single_character_witness:
  "set [''hex_encode''] \<subseteq> set catalog_ids \<and>
   runAvalanche (js ''a'') [] [''hex_encode''] =
     Inr [\<lparr>av_label = ''Original'', av_pw = js ''a'', av_hash = ''811c9dc5'', av_diff = 0\<rparr>,
          \<lparr>av_label = ''Flip 1st char'', av_pw = js ''b'', av_hash = ''811c9dc5'', av_diff = 0\<rparr>,
          \<lparr>av_label = ''Flip mid char'', av_pw = js ''b'', av_hash = ''811c9dc5'', av_diff = 0\<rparr>,
          \<lparr>av_label = ''Flip last char'', av_pw = js ''b'', av_hash = ''811c9dc5'', av_diff = 0\<rparr>]"
proof -
  have a: "set [''hex_encode''] \<subseteq> set catalog_ids"
    by (simp add: catalog_ids_def STEPS_entries_def)
  have j: "js ''a'' = [97]" "js ''b'' = [97 + 1]" by (simp_all add: js_def)
  from avalanche_single_character [OF a, of 97 "[]" "[]", THEN conjunct1] a
  show ?thesis
    unfolding j runHash_single_hex_encode by (auto simp: countDifferentChars_same)
qed

text \<open>
  C7 as stated fails for the zero-length password: the report does not complete.
\<close>

theorem avalanche_empty_password_counterexample:
  "runAvalanche [] [] [''hex_encode''] = Inl TypeError"
  by (rule runAvalanche_empty_password)

end
